theory Spec2Isabelle
  imports Main
begin

section \<open>Job\_autopilot: the spreadsheet pipeline as state-passing functions\<close>

text \<open>
  The embedding follows \<^verbatim>\<open>src/email_sender.py\<close>, \<^verbatim>\<open>src/letter_generator.py\<close> and
  \<^verbatim>\<open>src/cv_generator.py\<close>. The workbook is a record of tables (lists of rows, in sheet
  order; a row's pandas index label is its position, as \<^verbatim>\<open>read_excel\<close> gives a
  \<^verbatim>\<open>RangeIndex\<close>). Text cells are strings, a blank cell being the empty string that
  \<^verbatim>\<open>fillna("")\<close> leaves. The file system, the environment, the clock, the SMTP server and
  the text and PDF generators are inputs of the model; exceptions are values.
\<close>

subsection \<open>Strings\<close>

text \<open>The characters \<^verbatim>\<open>str.strip()\<close> and the regular expression \<^verbatim>\<open>\s\<close> remove (ASCII range).\<close>

definition is_space :: "char \<Rightarrow> bool" where
  "is_space c = (c \<in> set [CHR 0x09, CHR 0x0A, CHR 0x0B, CHR 0x0C, CHR 0x0D,
                           CHR 0x1C, CHR 0x1D, CHR 0x1E, CHR 0x1F, CHR 0x20])"

definition strip :: "string \<Rightarrow> string" where
  "strip s = rev (dropWhile is_space (rev (dropWhile is_space s)))"

text \<open>\<^verbatim>\<open>str.upper()\<close> and \<^verbatim>\<open>str.lower()\<close> on ASCII letters; other characters are kept.\<close>

definition upper_char :: "char \<Rightarrow> char" where
  "upper_char c =
     (case map_of (zip ''abcdefghijklmnopqrstuvwxyz'' ''ABCDEFGHIJKLMNOPQRSTUVWXYZ'') c of
        Some u \<Rightarrow> u | None \<Rightarrow> c)"

definition lower_char :: "char \<Rightarrow> char" where
  "lower_char c =
     (case map_of (zip ''ABCDEFGHIJKLMNOPQRSTUVWXYZ'' ''abcdefghijklmnopqrstuvwxyz'') c of
        Some l \<Rightarrow> l | None \<Rightarrow> c)"

definition upper :: "string \<Rightarrow> string" where
  "upper s = map upper_char s"

definition lower :: "string \<Rightarrow> string" where
  "lower s = map lower_char s"

definition endswith :: "string \<Rightarrow> string \<Rightarrow> bool" where
  "endswith s suf = (length suf \<le> length s \<and> drop (length s - length suf) s = suf)"

text \<open>Python's truth value of a string: non-empty.\<close>

definition truthy :: "string \<Rightarrow> bool" where
  "truthy s = (s \<noteq> [])"

definition blank :: "string \<Rightarrow> bool" where
  "blank s = (strip s = [])"

subsection \<open>Tables\<close>

text \<open>
  A cell of a numeric column of the \<^verbatim>\<open>senders\<close> sheet: an integer, or anything
  \<^verbatim>\<open>pd.to_numeric(..., errors="coerce")\<close> turns into NaN (a blank, a word).
\<close>

datatype cell = IntCell int | NonNumeric

record sender_row =
  email :: string
  password :: string
  daily_limit :: cell
  sent_today :: cell
  smtp_host_col :: string

record profile =
  profile_id :: string
  nom :: string
  prenom :: string
  profil_pro :: string

record joboffer =
  job_id :: string
  infos :: string
  intitule :: string
  recruiter_email :: string

record application =
  a_profile_id :: string
  a_job_id :: string
  generate_lm :: string
  email_sent :: string
  sent_at :: string

text \<open>
  \<open>senders\<close> is \<open>None\<close> when the workbook has no such sheet; \<open>others\<close> holds every sheet
  the program never names. An optional column that the sheet lacks reads as blank cells:
  \<open>smtp_host_col\<close> of a sender (\<^verbatim>\<open>sender.get("smtp_host")\<close> is then \<open>None\<close>, falsy like the
  empty text) and \<open>sent_at\<close> of an application (\<^verbatim>\<open>send_applications\<close> adds the column, filled
  with empty text, before anything else).
\<close>

record workbook =
  profiles :: "profile list"
  joboffers :: "joboffer list"
  applications :: "application list"
  senders :: "sender_row list option"
  others :: "string \<rightharpoonup> string list list"

datatype error =
  Exhausted      \<comment> \<open>\<^verbatim>\<open>RuntimeError("No sender available ...")\<close>\<close>
| AttributeError \<comment> \<open>attribute access on a value that lacks it\<close>

subsection \<open>\<^verbatim>\<open>email_sender.py\<close>: choosing the sender\<close>

definition smtp_host :: "string \<Rightarrow> string" where
  "smtp_host address =
     (let addr = lower address in
      if endswith addr ''@gmail.com'' then ''smtp.gmail.com''
      else if endswith addr ''@outlook.com'' \<or> endswith addr ''@hotmail.com''
              \<or> endswith addr ''@live.com'' then ''smtp-mail.outlook.com''
      else ''smtp.gmail.com'')"

text \<open>\<^verbatim>\<open>pd.to_numeric(col, errors="coerce").fillna(0).astype(int)\<close>, cell by cell.\<close>

definition to_int :: "cell \<Rightarrow> int" where
  "to_int c = (case c of IntCell n \<Rightarrow> n | NonNumeric \<Rightarrow> 0)"

definition coerce :: "sender_row \<Rightarrow> sender_row" where
  "coerce r = r\<lparr>daily_limit := IntCell (to_int (daily_limit r)),
                sent_today := IntCell (to_int (sent_today r))\<rparr>"

definition sent :: "sender_row \<Rightarrow> int" where
  "sent r = to_int (sent_today r)"

definition limit :: "sender_row \<Rightarrow> int" where
  "limit r = to_int (daily_limit r)"

text \<open>
  The dictionary \<^verbatim>\<open>pick_sender\<close> returns: a row of the sheet, or the three environment
  variables (\<^verbatim>\<open>os.getenv\<close> gives \<open>None\<close> for an unset variable).
\<close>

datatype sender = Account sender_row | EnvAccount "string option" "string option" string

text \<open>
  \<^verbatim>\<open>df[df.sent_today < df.daily_limit]\<close> keeps the index labels, so rows travel with
  their position. \<^verbatim>\<open>sort_values("sent_today")\<close> is modelled by the stable
  \<^const>\<open>sort_key\<close>; \<^verbatim>\<open>.iloc[0]\<close> is the head, taken only when the frame is not empty.
\<close>

definition avail :: "sender_row list \<Rightarrow> (nat \<times> sender_row) list" where
  "avail df = filter (\<lambda>(i, r). sent r < limit r) (enumerate 0 df)"

definition bump :: "sender_row \<Rightarrow> sender_row" where
  "bump r = r\<lparr>sent_today := IntCell (sent r + 1)\<rparr>"

definition pick_sender :: "workbook \<Rightarrow> (string \<rightharpoonup> string) \<Rightarrow> error + (sender \<times> sender_row list option)" where
  "pick_sender wb getenv =
     (case senders wb of
        Some raw \<Rightarrow>
          (let df = map coerce raw in
           case sort_key (\<lambda>(i, r). sent r) (avail df) of
             [] \<Rightarrow> Inl Exhausted
           | (i, chosen) # _ \<Rightarrow> Inr (Account chosen, Some (df[i := bump (df ! i)])))
      | None \<Rightarrow>
          Inr (EnvAccount (getenv ''SMTP_EMAIL'') (getenv ''SMTP_PASSWORD'')
                 (case getenv ''SMTP_HOST'' of
                    Some h \<Rightarrow> if h \<noteq> [] then h
                              else smtp_host (case getenv ''SMTP_EMAIL'' of Some a \<Rightarrow> a | None \<Rightarrow> [])
                  | None \<Rightarrow> smtp_host (case getenv ''SMTP_EMAIL'' of Some a \<Rightarrow> a | None \<Rightarrow> [])),
               None))"

subsection \<open>\<^verbatim>\<open>email_sender.py\<close>: the dispatcher\<close>

text \<open>
  \<^verbatim>\<open>frame.loc[mask].squeeze()\<close>: one matching row gives that row (a Series); no match, or
  several, gives a frame, whose attributes are columns.
\<close>

datatype 'r squeezed = Row 'r | Frame "'r list"

definition squeeze :: "'r list \<Rightarrow> 'r squeezed" where
  "squeeze rs = (case rs of [r] \<Rightarrow> Row r | _ \<Rightarrow> Frame rs)"

text \<open>
  The PDF folders map a file name to its content; \<open>tmp_cv\<close> and \<open>tmp_lm\<close> are the two
  transient HTML files of the data folder. \<^verbatim>\<open>CV_DIR.glob(name)\<close> is read as the lookup of
  that name (names hold no wildcard).
\<close>

record filesystem =
  cv_dir :: "string \<rightharpoonup> string"
  lm_dir :: "string \<rightharpoonup> string"
  tmp_cv :: "string option"
  tmp_lm :: "string option"

definition cv_name :: "profile \<Rightarrow> string" where
  "cv_name p = ''CV_'' @ upper (nom p) @ ''_'' @ prenom p @ ''.pdf''"

definition lm_name :: "profile \<Rightarrow> string \<Rightarrow> string" where
  "lm_name p job = ''LM_'' @ upper (nom p) @ ''_'' @ prenom p @ ''_'' @ job @ ''.pdf''"

record datetime =
  day :: nat
  month :: nat
  year :: nat
  hour :: nat
  minute :: nat
  second :: nat

definition digit :: "nat \<Rightarrow> char" where
  "digit n = ''0123456789'' ! (n mod 10)"

definition pad2 :: "nat \<Rightarrow> string" where
  "pad2 n = [digit (n div 10), digit n]"

definition pad4 :: "nat \<Rightarrow> string" where
  "pad4 n = [digit (n div 1000), digit (n div 100), digit (n div 10), digit n]"

text \<open>\<^verbatim>\<open>strftime("%d/%m/%Y %H:%M:%S")\<close>, for a four-digit year.\<close>

definition strftime :: "datetime \<Rightarrow> string" where
  "strftime t = pad2 (day t) @ ''/'' @ pad2 (month t) @ ''/'' @ pad4 (year t) @ '' ''
                @ pad2 (hour t) @ '':'' @ pad2 (minute t) @ '':'' @ pad2 (second t)"

text \<open>
  What \<^verbatim>\<open>build_msg\<close> and \<^verbatim>\<open>send_email\<close> receive: the host, the sender, the profile
  and the looked-up offer (from which recipient, subject and body are formatted) and the
  two attachments. \<^verbatim>\<open>build_msg\<close>, which only assembles these, is taken to return.
\<close>

record email_msg =
  m_host :: string
  m_sender :: sender
  m_profil :: profile
  m_offer :: "joboffer squeezed"
  m_files :: "string list"

text \<open>
  The surroundings of one run: the files, the environment variables, the clock read when
  row \<open>idx\<close> is stamped, and whether the SMTP session for row \<open>idx\<close> succeeds
  (\<open>False\<close>: \<^verbatim>\<open>send_email\<close> raises).
\<close>

record world =
  files :: filesystem
  getenv :: "string \<rightharpoonup> string"
  clock :: "nat \<Rightarrow> datetime"
  smtp_ok :: "nat \<Rightarrow> email_msg \<Rightarrow> bool"

datatype report =
  NothingToSend
| MissingPdf string string
| Delivered nat
| SendFailed nat

text \<open>
  The variables of \<^verbatim>\<open>send_applications\<close> that change, with the observable history: rows
  whose loop body started, rows for which \<^verbatim>\<open>send_email\<close> was called, messages
  transmitted, lines printed.
\<close>

record run_state =
  st_apps :: "application list"
  st_senders :: "sender_row list option"
  st_visited :: "nat list"
  st_tried :: "nat list"
  st_sent :: "(nat \<times> email_msg) list"
  st_log :: "report list"

datatype 'a flow = Next 'a | Break 'a | Raise error 'a

definition mask_no_email :: "application \<Rightarrow> bool" where
  "mask_no_email a = (strip (email_sent a) = [])"

definition selected :: "application \<Rightarrow> bool" where
  "selected a = (upper (generate_lm a) = ''Y'' \<and> mask_no_email a)"

definition todo_of :: "application list \<Rightarrow> (nat \<times> application) list" where
  "todo_of apps = filter (\<lambda>(idx, row). selected row) (enumerate 0 apps)"

definition sender_email :: "sender \<Rightarrow> string option" where
  "sender_email s = (case s of Account r \<Rightarrow> Some (email r) | EnvAccount e p h \<Rightarrow> e)"

definition sender_host :: "sender \<Rightarrow> string" where
  "sender_host s = (case s of Account r \<Rightarrow> smtp_host_col r | EnvAccount e p h \<Rightarrow> h)"

text \<open>\<^verbatim>\<open>sender.get("smtp_host") or smtp_host(sender["email"])\<close>.\<close>

definition host_of :: "sender \<Rightarrow> error + string" where
  "host_of s =
     (if sender_host s \<noteq> [] then Inr (sender_host s)
      else case sender_email s of
             None \<Rightarrow> Inl AttributeError
           | Some a \<Rightarrow> Inr (smtp_host a))"

definition mark_sent :: "world \<Rightarrow> nat \<Rightarrow> application list \<Rightarrow> application list" where
  "mark_sent w idx apps =
     apps[idx := (apps ! idx)\<lparr>email_sent := ''YES'', sent_at := strftime (clock w idx)\<rparr>]"

text \<open>One pass of the loop body for the row \<open>(idx, row)\<close> of \<open>todo\<close>.\<close>

definition send_row :: "bool \<Rightarrow> workbook \<Rightarrow> world \<Rightarrow> nat \<times> application \<Rightarrow> run_state \<Rightarrow> run_state flow" where
  "send_row force wb w x st =
     (case x of (idx, row) \<Rightarrow>
      let st1 = st\<lparr>st_visited := st_visited st @ [idx]\<rparr>;
          profil = squeeze (filter (\<lambda>p. profile_id p = a_profile_id row) (profiles wb));
          offer = squeeze (filter (\<lambda>j. job_id j = a_job_id row) (joboffers wb))
      in case profil of
           Frame _ \<Rightarrow> Raise AttributeError st1
         | Row p \<Rightarrow>
             if \<not> (cv_dir (files w) (cv_name p) \<noteq> None
                    \<and> lm_dir (files w) (lm_name p (a_job_id row)) \<noteq> None)
             then Next (st1\<lparr>st_log := st_log st1 @ [MissingPdf (a_profile_id row) (a_job_id row)]\<rparr>)
             else
               (case pick_sender wb (getenv w) of
                  Inl e \<Rightarrow> Raise e st1
                | Inr (sender, senders_df) \<Rightarrow>
                    let st2 = st1\<lparr>st_senders := senders_df\<rparr> in
                    (case host_of sender of
                       Inl e \<Rightarrow> Raise e st2
                     | Inr host \<Rightarrow>
                         let msg = \<lparr>m_host = host, m_sender = sender, m_profil = p, m_offer = offer,
                                    m_files = [cv_name p, lm_name p (a_job_id row)]\<rparr>;
                             st3 = st2\<lparr>st_tried := st_tried st2 @ [idx]\<rparr>
                         in if smtp_ok w idx msg
                            then Next (st3\<lparr>st_apps := mark_sent w idx (st_apps st3),
                                           st_sent := st_sent st3 @ [(idx, msg)],
                                           st_log := st_log st3 @ [Delivered idx]\<rparr>)
                            else let st4 = st3\<lparr>st_log := st_log st3 @ [SendFailed idx]\<rparr>
                                 in if \<not> force then Break st4 else Next st4)))"

fun send_loop :: "bool \<Rightarrow> workbook \<Rightarrow> world \<Rightarrow> (nat \<times> application) list \<Rightarrow> run_state \<Rightarrow> run_state flow" where
  "send_loop force wb w [] st = Next st"
| "send_loop force wb w (x # xs) st =
     (case send_row force wb w x st of
        Next st' \<Rightarrow> send_loop force wb w xs st'
      | Break st' \<Rightarrow> Break st'
      | Raise e st' \<Rightarrow> Raise e st')"

text \<open>
  The result of a run: the workbook left on disk, the sheets written (in order), the
  history, and the exception that left the function, if any.
\<close>

record outcome =
  o_store :: workbook
  o_writes :: "string list"
  o_state :: run_state
  o_error :: "error option"

definition init_state :: "workbook \<Rightarrow> run_state" where
  "init_state wb = \<lparr>st_apps = applications wb, st_senders = None, st_visited = [],
                    st_tried = [], st_sent = [], st_log = []\<rparr>"

text \<open>The \<^verbatim>\<open>ExcelWriter(mode="a", if_sheet_exists="replace")\<close> block.\<close>

definition persist :: "workbook \<Rightarrow> run_state \<Rightarrow> outcome" where
  "persist wb st =
     (case st_senders st of
        None \<Rightarrow> \<lparr>o_store = wb\<lparr>applications := st_apps st\<rparr>,
                  o_writes = [''applications''], o_state = st, o_error = None\<rparr>
      | Some df \<Rightarrow> \<lparr>o_store = wb\<lparr>applications := st_apps st, senders := Some df\<rparr>,
                     o_writes = [''applications'', ''senders''], o_state = st, o_error = None\<rparr>)"

definition send_applications :: "bool \<Rightarrow> workbook \<Rightarrow> world \<Rightarrow> outcome" where
  "send_applications force wb w =
     (let todo = todo_of (applications wb) in
      if todo = []
      then \<lparr>o_store = wb, o_writes = [],
            o_state = (init_state wb)\<lparr>st_log := [NothingToSend]\<rparr>, o_error = None\<rparr>
      else case send_loop force wb w todo (init_state wb) of
             Next st \<Rightarrow> persist wb st
           | Break st \<Rightarrow> persist wb st
           | Raise e st \<Rightarrow> \<lparr>o_store = wb, o_writes = [], o_state = st, o_error = Some e\<rparr>)"

subsection \<open>\<^verbatim>\<open>cv_generator.py\<close> and \<^verbatim>\<open>letter_generator.py\<close>: the builders\<close>

text \<open>
  The collaborators: the two OpenAI calls, the two Jinja templates and wkhtmltopdf. Each
  is an arbitrary function of what the code passes to it.
\<close>

record collab =
  summary :: "profile \<Rightarrow> string"
  render_cv :: "profile \<Rightarrow> string"
  letter_text :: "profile \<Rightarrow> joboffer squeezed \<Rightarrow> string"
  render_lm :: "profile \<Rightarrow> string \<Rightarrow> joboffer squeezed \<Rightarrow> string"
  to_pdf :: "string \<Rightarrow> string"

datatype gen_report = NothingToGenerate | AlreadyPresent string | Generated string

text \<open>
  The file system of a builder run with its observable history: application rows whose
  loop body started, artifacts written (in order), lines printed.
\<close>

record gen_state =
  g_fs :: filesystem
  g_visited :: "nat list"
  g_written :: "string list"
  g_log :: "gen_report list"

text \<open>\<^verbatim>\<open>re.fullmatch(r"(nan|none|\s*)", str(v), re.I)\<close> on a text cell.\<close>

definition clean_value :: "string \<Rightarrow> string" where
  "clean_value v =
     (if lower v = ''nan'' \<or> lower v = ''none'' \<or> list_all is_space v then [] else v)"

definition clean :: "profile \<Rightarrow> profile" where
  "clean d = \<lparr>profile_id = clean_value (profile_id d), nom = clean_value (nom d),
              prenom = clean_value (prenom d), profil_pro = clean_value (profil_pro d)\<rparr>"

definition cv_row :: "bool \<Rightarrow> collab \<Rightarrow> profile \<Rightarrow> gen_state \<Rightarrow> gen_state" where
  "cv_row force c raw st =
     (let profile0 = clean raw;
          profile1 = (if profil_pro profile0 = [] then profile0\<lparr>profil_pro := summary c profile0\<rparr>
                      else profile0);
          file_pdf = cv_name profile1;
          fs = g_fs st
      in if cv_dir fs file_pdf \<noteq> None \<and> \<not> force
         then st\<lparr>g_log := g_log st @ [AlreadyPresent file_pdf]\<rparr>
         else let html = render_cv c profile1 in
              st\<lparr>g_fs := fs\<lparr>tmp_cv := Some html, cv_dir := (cv_dir fs)(file_pdf \<mapsto> to_pdf c html)\<rparr>,
                 g_written := g_written st @ [file_pdf],
                 g_log := g_log st @ [Generated file_pdf]\<rparr>)"

definition start :: "filesystem \<Rightarrow> gen_state" where
  "start fs = \<lparr>g_fs = fs, g_visited = [], g_written = [], g_log = []\<rparr>"

text \<open>The loop over \<^verbatim>\<open>df.to_dict("records")\<close>, then \<^verbatim>\<open>tmp_html.unlink(missing_ok=True)\<close>.\<close>

definition generate_cvs :: "bool \<Rightarrow> collab \<Rightarrow> workbook \<Rightarrow> filesystem \<Rightarrow> gen_state" where
  "generate_cvs force c wb fs =
     (let st = foldl (\<lambda>st raw. cv_row force c raw st) (start fs) (profiles wb)
      in st\<lparr>g_fs := (g_fs st)\<lparr>tmp_cv := None\<rparr>\<rparr>)"

definition letter_row :: "bool \<Rightarrow> collab \<Rightarrow> workbook \<Rightarrow> nat \<times> application \<Rightarrow> gen_state \<Rightarrow> gen_state flow" where
  "letter_row force c wb x st0 =
     (case x of (idx, row) \<Rightarrow>
      let st = st0\<lparr>g_visited := g_visited st0 @ [idx]\<rparr>;
          profil = squeeze (filter (\<lambda>p. profile_id p = a_profile_id row) (profiles wb));
          offer = squeeze (filter (\<lambda>j. job_id j = a_job_id row) (joboffers wb));
          fs = g_fs st
      in case profil of
           Frame _ \<Rightarrow> Raise AttributeError st
         | Row p \<Rightarrow>
             let file_pdf = lm_name p (a_job_id row) in
             if lm_dir fs file_pdf \<noteq> None \<and> \<not> force
             then Next (st\<lparr>g_log := g_log st @ [AlreadyPresent file_pdf]\<rparr>)
             else let body = letter_text c p offer;
                      html = render_lm c p body offer
                  in Next (st\<lparr>g_fs := fs\<lparr>tmp_lm := Some html,
                                            lm_dir := (lm_dir fs)(file_pdf \<mapsto> to_pdf c html)\<rparr>,
                              g_written := g_written st @ [file_pdf],
                              g_log := g_log st @ [Generated file_pdf]\<rparr>))"

fun letter_loop :: "bool \<Rightarrow> collab \<Rightarrow> workbook \<Rightarrow> (nat \<times> application) list \<Rightarrow> gen_state \<Rightarrow> gen_state flow" where
  "letter_loop force c wb [] st = Next st"
| "letter_loop force c wb (x # xs) st =
     (case letter_row force c wb x st of
        Next st' \<Rightarrow> letter_loop force c wb xs st'
      | Break st' \<Rightarrow> Break st'
      | Raise e st' \<Rightarrow> Raise e st')"

text \<open>
  \<^verbatim>\<open>generate_letters\<close>: the early return leaves the temporary file alone, a normal end
  unlinks it, an exception leaves it as written.
\<close>

definition generate_letters :: "bool \<Rightarrow> collab \<Rightarrow> workbook \<Rightarrow> filesystem \<Rightarrow> gen_state flow" where
  "generate_letters force c wb fs =
     (let todo = todo_of (applications wb) in
      if todo = [] then Next ((start fs)\<lparr>g_log := [NothingToGenerate]\<rparr>)
      else case letter_loop force c wb todo (start fs) of
             Next st \<Rightarrow> Next (st\<lparr>g_fs := (g_fs st)\<lparr>tmp_lm := None\<rparr>\<rparr>)
           | Break st \<Rightarrow> Break st
           | Raise e st \<Rightarrow> Raise e st)"

definition state_of :: "'a flow \<Rightarrow> 'a" where
  "state_of f = (case f of Next s \<Rightarrow> s | Break s \<Rightarrow> s | Raise e s \<Rightarrow> s)"

text \<open>The letter of an application row is on disk: its profile is found and the file exists.\<close>

definition letter_present :: "workbook \<Rightarrow> filesystem \<Rightarrow> application \<Rightarrow> bool" where
  "letter_present wb fs row =
     (case squeeze (filter (\<lambda>p. profile_id p = a_profile_id row) (profiles wb)) of
        Row p \<Rightarrow> lm_dir fs (lm_name p (a_job_id row)) \<noteq> None
      | Frame _ \<Rightarrow> False)"

subsection \<open>The selection predicate in the specification's words\<close>


subsection \<open>Concrete data for the worked examples\<close>

definition ex_profile :: profile where
  "ex_profile = \<lparr>profile_id = ''p1'', nom = ''Durand'', prenom = ''Alice'', profil_pro = ''Analyste''\<rparr>"

definition ex_offer :: "string \<Rightarrow> joboffer" where
  "ex_offer j = \<lparr>job_id = j, infos = ''Poste'', intitule = ''Analyste'', recruiter_email = ''rh@corp.fr''\<rparr>"

definition ex_app :: "string \<Rightarrow> string \<Rightarrow> application" where
  "ex_app pid j = \<lparr>a_profile_id = pid, a_job_id = j, generate_lm = ''Y'', email_sent = [], sent_at = []\<rparr>"

definition ex_account :: "string \<Rightarrow> int \<Rightarrow> int \<Rightarrow> sender_row" where
  "ex_account e s l = \<lparr>email = e, password = ''pw'', daily_limit = IntCell l, sent_today = IntCell s,
                        smtp_host_col = ''smtp.corp.fr''\<rparr>"

definition ex_book :: "application list \<Rightarrow> sender_row list option \<Rightarrow> workbook" where
  "ex_book apps snds = \<lparr>profiles = [ex_profile], joboffers = [ex_offer ''j1'', ex_offer ''j2'', ex_offer ''j3''],
                         applications = apps, senders = snds, others = Map.empty\<rparr>"

definition ex_files :: filesystem where
  "ex_files = \<lparr>cv_dir = [''CV_DURAND_Alice.pdf'' \<mapsto> ''cv''],
               lm_dir = [''LM_DURAND_Alice_j1.pdf'' \<mapsto> ''lm1'', ''LM_DURAND_Alice_j2.pdf'' \<mapsto> ''lm2'',
                         ''LM_DURAND_Alice_j3.pdf'' \<mapsto> ''lm3''],
               tmp_cv = None, tmp_lm = None\<rparr>"

definition ex_time :: datetime where
  "ex_time = \<lparr>day = 3, month = 11, year = 2026, hour = 9, minute = 5, second = 0\<rparr>"



definition ex_collab :: collab where
  "ex_collab = \<lparr>summary = (\<lambda>p. ''resume''), render_cv = (\<lambda>p. ''<cv>'' @ nom p),
                 letter_text = (\<lambda>p j. ''lettre''), render_lm = (\<lambda>p body j. ''<lm>'' @ body),
                 to_pdf = (\<lambda>html. ''%PDF'' @ html)\<rparr>"

text \<open>A world in which the SMTP session fails exactly for the rows listed in \<open>bad\<close>.\<close>

definition ex_world :: "nat list \<Rightarrow> world" where
  "ex_world bad = \<lparr>files = ex_files, getenv = Map.empty, clock = (\<lambda>idx. ex_time),
                    smtp_ok = (\<lambda>idx msg. idx \<notin> set bad)\<rparr>"

text \<open>The workbooks of the worked examples.\<close>

definition ex_three :: workbook where
  [simp]: "ex_three = ex_book [ex_app ''p1'' ''j1'', ex_app ''p1'' ''j2'', ex_app ''p1'' ''j3'']
                        (Some [ex_account ''a@x.fr'' 0 5, ex_account ''b@x.fr'' 3 5])"

definition ex_two :: workbook where
  [simp]: "ex_two = ex_book [ex_app ''p1'' ''j1'', ex_app ''p1'' ''j2''] (Some [ex_account ''a@x.fr'' 0 5])"

definition ex_two_env :: workbook where
  [simp]: "ex_two_env = ex_book [ex_app ''p1'' ''j1'', ex_app ''p1'' ''j2''] None"


definition ex_spent :: workbook where
  [simp]: "ex_spent = ex_book [ex_app ''p1'' ''j1''] (Some [ex_account ''a@x.fr'' 5 5])"

definition ex_one :: workbook where
  [simp]: "ex_one = ex_book [ex_app ''p1'' ''j1''] None"


text \<open>The example file system before any letter was built.\<close>

definition ex_no_letters :: filesystem where
  [simp]: "ex_no_letters = ex_files\<lparr>lm_dir := Map.empty\<rparr>"

section \<open>Properties\<close>

subsection \<open>Sender selection\<close>

lemma sent_coerce [simp]: "sent (coerce r) = sent r"
  by (simp add: sent_def coerce_def to_int_def)

lemma limit_coerce [simp]: "limit (coerce r) = limit r"
  by (simp add: limit_def coerce_def to_int_def)

lemma sent_bump [simp]: "sent (bump r) = sent r + 1"
  by (simp add: sent_def bump_def to_int_def)

lemma limit_bump [simp]: "limit (bump r) = limit r"
  by (simp add: limit_def bump_def)

lemma avail_mem: "(i, r) \<in> set (avail df) \<longleftrightarrow> i < length df \<and> r = df ! i \<and> sent r < limit r"
  by (auto simp: avail_def in_set_enumerate_eq)

lemma avail_empty_iff: "avail df = [] \<longleftrightarrow> (\<forall>r\<in>set df. \<not> sent r < limit r)"
proof
  assume e: "avail df = []"
  show "\<forall>r\<in>set df. \<not> sent r < limit r"
  proof
    fix r assume "r \<in> set df"
    then obtain i where "i < length df" "r = df ! i" by (auto simp: in_set_conv_nth)
    then have "sent r < limit r \<Longrightarrow> (i, r) \<in> set (avail df)" by (simp add: avail_mem)
    with e show "\<not> sent r < limit r" by auto
  qed
next
  assume a: "\<forall>r\<in>set df. \<not> sent r < limit r"
  have "(i, r) \<notin> set (avail df)" for i r using a by (auto simp: avail_mem)
  then show "avail df = []" by (cases "avail df") force+
qed

lemma sort_key_Nil_iff: "sort_key f xs = [] \<longleftrightarrow> xs = []"
  by (metis length_sort list.size(3) length_0_conv)

lemma sort_key_head:
  assumes "sort_key f xs = y # ys"
  shows "y \<in> set xs \<and> (\<forall>x\<in>set xs. f y \<le> f x)"
proof -
  have "set (sort_key f xs) = set xs" by simp
  with assms have mem: "y \<in> set xs" and sub: "set xs = insert y (set ys)" by auto
  have "sorted (map f (sort_key f xs))" by (rule sorted_sort_key)
  with assms have "\<forall>x\<in>set ys. f y \<le> f x" by simp
  with mem sub show ?thesis by auto
qed

lemma pick_sender_Exhausted_iff:
  assumes "senders wb = Some raw"
  shows "pick_sender wb env = Inl Exhausted \<longleftrightarrow> (\<forall>r\<in>set raw. \<not> sent r < limit r)"
proof -
  have "pick_sender wb env = Inl Exhausted \<longleftrightarrow> sort_key (\<lambda>(i, r). sent r) (avail (map coerce raw)) = []"
    using assms by (auto simp: pick_sender_def Let_def split: list.splits)
  then show ?thesis by (simp add: sort_key_Nil_iff avail_empty_iff)
qed


text \<open>
  Claim C7. When the \<^verbatim>\<open>senders\<close> sheet exists and no account has \<open>sent_today\<close> strictly
  below \<open>daily_limit\<close>, \<^verbatim>\<open>pick_sender\<close> fails with the exhaustion error instead of
  returning an account; and the row of \<^verbatim>\<open>send_applications\<close> that reached the selection
  (profile found, both PDFs present) leaves the loop with that error before any message
  is built or sent: history and tables are as before the row, only the visit is recorded.
\<close>

theorem pick_sender_exhausted:
  assumes "senders wb = Some tbl" and "\<forall>r\<in>set tbl. \<not> sent r < limit r"
  shows "pick_sender wb (getenv w) = Inl Exhausted
         \<and> (squeeze (filter (\<lambda>p. profile_id p = a_profile_id row) (profiles wb)) = Row p
              \<and> cv_dir (files w) (cv_name p) \<noteq> None
              \<and> lm_dir (files w) (lm_name p (a_job_id row)) \<noteq> None
            \<longrightarrow> send_row force wb w (idx, row) st
                = Raise Exhausted (st\<lparr>st_visited := st_visited st @ [idx]\<rparr>))"
proof -
  have "pick_sender wb (getenv w) = Inl Exhausted"
    using assms by (simp add: pick_sender_Exhausted_iff)
  then show ?thesis by (simp add: send_row_def Let_def)
qed

theorem pick_sender_exhausted_witness:
  "senders ex_spent = Some [ex_account ''a@x.fr'' 5 5]
   \<and> \<not> sent (ex_account ''a@x.fr'' 5 5) < limit (ex_account ''a@x.fr'' 5 5)
   \<and> squeeze (filter (\<lambda>p. profile_id p = a_profile_id (ex_app ''p1'' ''j1'')) (profiles ex_spent))
       = Row ex_profile
   \<and> cv_dir (files (ex_world [])) (cv_name ex_profile) \<noteq> None
   \<and> lm_dir (files (ex_world [])) (lm_name ex_profile (a_job_id (ex_app ''p1'' ''j1''))) \<noteq> None
   \<and> pick_sender ex_spent (getenv (ex_world [])) = Inl Exhausted
   \<and> send_row False ex_spent (ex_world []) (0, ex_app ''p1'' ''j1'') (init_state ex_spent)
       = Raise Exhausted ((init_state ex_spent)\<lparr>st_visited := st_visited (init_state ex_spent) @ [0]\<rparr>)"
proof -
  have h1: "senders ex_spent = Some [ex_account ''a@x.fr'' 5 5]"
    and h2: "\<forall>r\<in>set [ex_account ''a@x.fr'' 5 5]. \<not> sent r < limit r"
    and h3: "squeeze (filter (\<lambda>p. profile_id p = a_profile_id (ex_app ''p1'' ''j1'')) (profiles ex_spent))
       = Row ex_profile"
    and h4: "cv_dir (files (ex_world [])) (cv_name ex_profile) \<noteq> None"
    and h5: "lm_dir (files (ex_world [])) (lm_name ex_profile (a_job_id (ex_app ''p1'' ''j1''))) \<noteq> None"
    by code_simp+
  from pick_sender_exhausted[OF h1 h2, of "ex_world []" "ex_app ''p1'' ''j1''" ex_profile False 0
      "init_state ex_spent"] h1 h2 h3 h4 h5
  show ?thesis by simp
qed




subsection \<open>The selection predicate\<close>



lemma dropWhile_all_iff: "(\<forall>x\<in>set (dropWhile P s). P x) \<longleftrightarrow> (\<forall>x\<in>set s. P x)"
proof
  assume a: "\<forall>x\<in>set (dropWhile P s). P x"
  have "dropWhile P s = []"
  proof (rule ccontr)
    assume n: "dropWhile P s \<noteq> []"
    then have "\<not> P (hd (dropWhile P s))" by (rule hd_dropWhile)
    moreover from n have "hd (dropWhile P s) \<in> set (dropWhile P s)" by (rule hd_in_set)
    ultimately show False using a by blast
  qed
  then show "\<forall>x\<in>set s. P x" by (simp add: dropWhile_eq_Nil_conv)
next
  assume "\<forall>x\<in>set s. P x"
  then show "\<forall>x\<in>set (dropWhile P s). P x" by (blast dest: set_dropWhileD)
qed

lemma strip_Nil_iff: "strip s = [] \<longleftrightarrow> list_all is_space s"
  by (simp add: strip_def dropWhile_eq_Nil_conv dropWhile_all_iff list_all_iff)



text \<open>A property kept by every pass of the loop body holds when the loop ends, however it ends.\<close>

lemma send_loop_invariant:
  assumes "P st"
    and "\<And>x s. x \<in> set xs \<Longrightarrow> P s \<Longrightarrow> P (state_of (send_row force wb w x s))"
  shows "P (state_of (send_loop force wb w xs st))"
  using assms
proof (induction xs arbitrary: st)
  case Nil
  then show ?case by (simp add: state_of_def)
next
  case (Cons x xs)
  have step: "P (state_of (send_row force wb w x st))" using Cons.prems by simp
  show ?case
  proof (cases "send_row force wb w x st")
    case (Next st')
    with step have "P st'" by (simp add: state_of_def)
    then have "P (state_of (send_loop force wb w xs st'))"
      using Cons.prems(2) by (intro Cons.IH) simp_all
    with Next show ?thesis by simp
  qed (use step in \<open>simp_all add: state_of_def\<close>)
qed


lemma send_row_visited:
  "st_visited (state_of (send_row force wb w (idx, row) st)) = st_visited st @ [idx]"
  by (simp add: send_row_def state_of_def Let_def split: squeezed.splits sum.splits prod.splits)











subsection \<open>Transport failures\<close>

lemma send_row_failure:
  assumes "squeeze (filter (\<lambda>p. profile_id p = a_profile_id row) (profiles wb)) = Row p"
    and "cv_dir (files w) (cv_name p) \<noteq> None"
    and "lm_dir (files w) (lm_name p (a_job_id row)) \<noteq> None"
    and "pick_sender wb (getenv w) = Inr (sender, df)"
    and "host_of sender = Inr host"
    and "\<not> smtp_ok w idx \<lparr>m_host = host, m_sender = sender, m_profil = p,
            m_offer = squeeze (filter (\<lambda>j. job_id j = a_job_id row) (joboffers wb)),
            m_files = [cv_name p, lm_name p (a_job_id row)]\<rparr>"
  shows "send_row force wb w (idx, row) st =
           (if force then Next else Break)
             (st\<lparr>st_visited := st_visited st @ [idx], st_senders := df,
                 st_tried := st_tried st @ [idx], st_log := st_log st @ [SendFailed idx]\<rparr>)"
  using assms by (simp add: send_row_def Let_def)

lemma send_loop_visited_mono:
  "set (st_visited st) \<subseteq> set (st_visited (state_of (send_loop force wb w xs st)))"
  by (rule send_loop_invariant[where P = "\<lambda>s. set (st_visited st) \<subseteq> set (st_visited s)"])
     (force simp: send_row_visited)+

lemma send_loop_visits_head:
  "idx \<in> set (st_visited (state_of (send_loop force wb w ((idx, row) # xs) st)))"
proof -
  have v: "st_visited (state_of (send_row force wb w (idx, row) st)) = st_visited st @ [idx]"
    by (rule send_row_visited)
  show ?thesis
  proof (cases "send_row force wb w (idx, row) st")
    case (Next st')
    with v have "idx \<in> set (st_visited st')" by (simp add: state_of_def)
    with send_loop_visited_mono[of st' force wb w xs] Next show ?thesis by auto
  qed (use v in \<open>auto simp: state_of_def\<close>)
qed

text \<open>
  Claim C6. Two pending rows, the first of which reaches \<^verbatim>\<open>send_email\<close> (profile found,
  both PDFs present, a sender picked) and fails there. Without \<open>force\<close> the loop breaks
  with the state \<open>failed\<close>: the second row is never visited. With \<open>force\<close> the loop goes
  on with the second row from that same state, so the second row is visited. In both
  modes the failure is printed, and the failed row is not marked: the table and the list
  of transmitted messages are as before the row.
\<close>

theorem fail_fast_or_force:
  assumes "squeeze (filter (\<lambda>p. profile_id p = a_profile_id row) (profiles wb)) = Row p"
    and "cv_dir (files w) (cv_name p) \<noteq> None"
    and "lm_dir (files w) (lm_name p (a_job_id row)) \<noteq> None"
    and "pick_sender wb (getenv w) = Inr (sender, df)"
    and "host_of sender = Inr host"
    and "\<not> smtp_ok w idx \<lparr>m_host = host, m_sender = sender, m_profil = p,
            m_offer = squeeze (filter (\<lambda>j. job_id j = a_job_id row) (joboffers wb)),
            m_files = [cv_name p, lm_name p (a_job_id row)]\<rparr>"
    and "failed = st\<lparr>st_visited := st_visited st @ [idx], st_senders := df,
                      st_tried := st_tried st @ [idx], st_log := st_log st @ [SendFailed idx]\<rparr>"
  shows "send_loop False wb w ((idx, row) # (idx2, row2) # rest) st = Break failed
         \<and> send_loop True wb w ((idx, row) # (idx2, row2) # rest) st
             = send_loop True wb w ((idx2, row2) # rest) failed
         \<and> idx2 \<in> set (st_visited (state_of (send_loop True wb w ((idx, row) # (idx2, row2) # rest) st)))
         \<and> st_apps failed = st_apps st \<and> st_sent failed = st_sent st
         \<and> SendFailed idx \<in> set (st_log failed)"
proof -
  have r: "send_row force wb w (idx, row) st = (if force then Next else Break) failed" for force
    using send_row_failure[OF assms(1-6)] assms(7) by simp
  have 1: "send_loop False wb w ((idx, row) # (idx2, row2) # rest) st = Break failed"
    using r[of False] by simp
  have 2: "send_loop True wb w ((idx, row) # (idx2, row2) # rest) st
             = send_loop True wb w ((idx2, row2) # rest) failed"
    using r[of True] by simp
  have 3: "idx2 \<in> set (st_visited (state_of (send_loop True wb w ((idx, row) # (idx2, row2) # rest) st)))"
    unfolding 2 by (rule send_loop_visits_head)
  from 1 2 3 assms(7) show ?thesis by simp
qed

theorem fail_fast_or_force_witness:
  "squeeze (filter (\<lambda>p. profile_id p = a_profile_id (ex_app ''p1'' ''j1'')) (profiles ex_two)) = Row ex_profile
   \<and> cv_dir (files (ex_world [0])) (cv_name ex_profile) \<noteq> None
   \<and> lm_dir (files (ex_world [0])) (lm_name ex_profile (a_job_id (ex_app ''p1'' ''j1''))) \<noteq> None
   \<and> pick_sender ex_two (getenv (ex_world [0]))
       = Inr (Account (ex_account ''a@x.fr'' 0 5), Some [ex_account ''a@x.fr'' 1 5])
   \<and> host_of (Account (ex_account ''a@x.fr'' 0 5)) = Inr ''smtp.corp.fr''
   \<and> st_visited (state_of (send_loop False ex_two (ex_world [0])
        [(0, ex_app ''p1'' ''j1''), (1, ex_app ''p1'' ''j2'')] (init_state ex_two))) = [0]
   \<and> 1 \<in> set (st_visited (state_of (send_loop True ex_two (ex_world [0])
        [(0, ex_app ''p1'' ''j1''), (1, ex_app ''p1'' ''j2'')] (init_state ex_two))))
   \<and> st_tried (o_state (send_applications False ex_two (ex_world [0]))) = [0]
   \<and> st_tried (o_state (send_applications True ex_two (ex_world [0]))) = [0, 1]
   \<and> map email_sent (applications (o_store (send_applications True ex_two (ex_world [0])))) = [[], ''YES'']"
proof -
  let ?snd = "Account (ex_account ''a@x.fr'' 0 5)"
  have h1: "squeeze (filter (\<lambda>p. profile_id p = a_profile_id (ex_app ''p1'' ''j1'')) (profiles ex_two))
       = Row ex_profile"
    and h2: "cv_dir (files (ex_world [0])) (cv_name ex_profile) \<noteq> None"
    and h3: "lm_dir (files (ex_world [0])) (lm_name ex_profile (a_job_id (ex_app ''p1'' ''j1''))) \<noteq> None"
    and h4: "pick_sender ex_two (getenv (ex_world [0])) = Inr (?snd, Some [ex_account ''a@x.fr'' 1 5])"
    and h5: "host_of ?snd = Inr ''smtp.corp.fr''"
    and e1: "st_tried (o_state (send_applications False ex_two (ex_world [0]))) = [0]"
    and e2: "st_tried (o_state (send_applications True ex_two (ex_world [0]))) = [0, 1]"
    and e3: "map email_sent (applications (o_store (send_applications True ex_two (ex_world [0]))))
       = [[], ''YES'']"
    by code_simp+
  have h6: "\<not> smtp_ok (ex_world [0]) 0 \<lparr>m_host = ''smtp.corp.fr'', m_sender = ?snd, m_profil = ex_profile,
          m_offer = squeeze (filter (\<lambda>j. job_id j = a_job_id (ex_app ''p1'' ''j1'')) (joboffers ex_two)),
          m_files = [cv_name ex_profile, lm_name ex_profile (a_job_id (ex_app ''p1'' ''j1''))]\<rparr>"
    by (simp add: ex_world_def)
  note t = fail_fast_or_force[OF h1 h2 h3 h4 h5 h6 refl, where st = "init_state ex_two" and ?idx2.0 = 1
      and ?row2.0 = "ex_app ''p1'' ''j2''" and rest = "[]"]
  from t have v1: "st_visited (state_of (send_loop False ex_two (ex_world [0])
        [(0, ex_app ''p1'' ''j1''), (1, ex_app ''p1'' ''j2'')] (init_state ex_two))) = [0]"
    by (simp add: state_of_def init_state_def)
  from t have v2: "1 \<in> set (st_visited (state_of (send_loop True ex_two (ex_world [0])
        [(0, ex_app ''p1'' ''j1''), (1, ex_app ''p1'' ''j2'')] (init_state ex_two))))"
    by blast
  from h1 h2 h3 h4 h5 v1 v2 e1 e2 e3 show ?thesis by blast
qed

subsection \<open>Marking dispatched rows\<close>

lemma send_row_cases:
  "(st_apps (state_of (send_row force wb w (idx, row) st)) = st_apps st
      \<and> st_sent (state_of (send_row force wb w (idx, row) st)) = st_sent st)
   \<or> (\<exists>msg. st_apps (state_of (send_row force wb w (idx, row) st)) = mark_sent w idx (st_apps st)
         \<and> st_sent (state_of (send_row force wb w (idx, row) st)) = st_sent st @ [(idx, msg)])"
  by (simp add: send_row_def state_of_def Let_def split: squeezed.splits sum.splits prod.splits)

lemma strftime_not_blank: "\<not> blank (strftime t)"
proof -
  have "CHR ''/'' \<in> set (strftime t)" by (simp add: strftime_def)
  moreover have "\<not> is_space (CHR ''/'')" by (simp add: is_space_def)
  ultimately show ?thesis by (auto simp: blank_def strip_Nil_iff list_all_iff)
qed

lemma mark_sent_nth:
  "idx < length apps \<Longrightarrow> email_sent (mark_sent w idx apps ! idx) = ''YES''
     \<and> sent_at (mark_sent w idx apps ! idx) = strftime (clock w idx)"
  by (simp add: mark_sent_def)

lemma mark_sent_other: "i \<noteq> idx \<Longrightarrow> mark_sent w idx apps ! i = apps ! i"
  by (simp add: mark_sent_def)

lemma length_mark_sent [simp]: "length (mark_sent w idx apps) = length apps"
  by (simp add: mark_sent_def)

text \<open>
  The invariant of the loop: the table keeps its length, every transmitted row is
  marked and stamped, every other row is as it was read.
\<close>

lemma send_loop_marks:
  fixes orig :: "application list" and w :: world
  defines "P \<equiv> \<lambda>s. length (st_apps s) = length orig
      \<and> (\<forall>i\<in>fst ` set (st_sent s). i < length orig \<and> email_sent (st_apps s ! i) = ''YES''
            \<and> sent_at (st_apps s ! i) = strftime (clock w i))
      \<and> (\<forall>i<length orig. i \<notin> fst ` set (st_sent s) \<longrightarrow> st_apps s ! i = orig ! i)"
  assumes "P st" and "\<forall>x\<in>set xs. fst x < length orig"
  shows "P (state_of (send_loop force wb w xs st))"
proof (rule send_loop_invariant[where P = P, OF assms(2)])
  fix x s assume x: "x \<in> set xs" and Ps: "P s"
  obtain idx row where xe: "x = (idx, row)" by (cases x)
  with x assms(3) have idx: "idx < length orig" by auto
  let ?s' = "state_of (send_row force wb w (idx, row) s)"
  from send_row_cases[of force wb w idx row s]
  consider "st_apps ?s' = st_apps s \<and> st_sent ?s' = st_sent s"
    | msg where "st_apps ?s' = mark_sent w idx (st_apps s)" "st_sent ?s' = st_sent s @ [(idx, msg)]"
    by blast
  then have "P ?s'"
  proof cases
    case 1
    with Ps show ?thesis by (simp add: P_def)
  next
    case 2
    from Ps have len: "length (st_apps s) = length orig" by (simp add: P_def)
    have a: "length (st_apps ?s') = length orig" using 2 len by simp
    have b: "i < length orig \<and> email_sent (st_apps ?s' ! i) = ''YES''
            \<and> sent_at (st_apps ?s' ! i) = strftime (clock w i)"
      if "i \<in> fst ` set (st_sent ?s')" for i
    proof (cases "i = idx")
      case True
      with idx len 2 mark_sent_nth[of idx "st_apps s" w] show ?thesis by simp
    next
      case False
      with that 2 have "i \<in> fst ` set (st_sent s)" by auto
      with Ps have "i < length orig \<and> email_sent (st_apps s ! i) = ''YES''
            \<and> sent_at (st_apps s ! i) = strftime (clock w i)"
        unfolding P_def by blast
      with False 2 show ?thesis by (simp add: mark_sent_other)
    qed
    have c: "st_apps ?s' ! i = orig ! i"
      if "i < length orig" "i \<notin> fst ` set (st_sent ?s')" for i
    proof -
      from that 2 have ne: "i \<noteq> idx" and "i \<notin> fst ` set (st_sent s)" by auto
      with Ps that have "st_apps s ! i = orig ! i" unfolding P_def by blast
      with ne 2 show ?thesis by (simp add: mark_sent_other)
    qed
    from a b c show ?thesis unfolding P_def by blast
  qed
  with xe show "P (state_of (send_row force wb w x s))" by simp
qed

lemma todo_of_bound: "\<forall>x\<in>set (todo_of apps). fst x < length apps"
  by (auto simp: todo_of_def in_set_enumerate_eq)

lemma send_applications_marks:
  fixes force wb w
  defines "out \<equiv> send_applications force wb w"
  assumes "o_error out = None"
  shows "length (applications (o_store out)) = length (applications wb)
    \<and> (\<forall>i\<in>fst ` set (st_sent (o_state out)). i < length (applications wb)
          \<and> email_sent (applications (o_store out) ! i) = ''YES''
          \<and> sent_at (applications (o_store out) ! i) = strftime (clock w i))
    \<and> (\<forall>i<length (applications wb). i \<notin> fst ` set (st_sent (o_state out))
          \<longrightarrow> applications (o_store out) ! i = applications wb ! i)"
proof (cases "todo_of (applications wb) = []")
  case True
  then show ?thesis by (simp add: out_def send_applications_def init_state_def)
next
  case False
  let ?r = "send_loop force wb w (todo_of (applications wb)) (init_state wb)"
  have inv: "length (st_apps (state_of ?r)) = length (applications wb)
      \<and> (\<forall>i\<in>fst ` set (st_sent (state_of ?r)). i < length (applications wb)
            \<and> email_sent (st_apps (state_of ?r) ! i) = ''YES''
            \<and> sent_at (st_apps (state_of ?r) ! i) = strftime (clock w i))
      \<and> (\<forall>i<length (applications wb). i \<notin> fst ` set (st_sent (state_of ?r))
            \<longrightarrow> st_apps (state_of ?r) ! i = applications wb ! i)"
    by (rule send_loop_marks) (simp_all add: init_state_def todo_of_bound)
  from assms False obtain st where r: "?r = Next st \<or> ?r = Break st"
    by (auto simp: send_applications_def Let_def split: flow.splits)
  then have "o_state out = st \<and> applications (o_store out) = st_apps st"
    using False by (auto simp: out_def send_applications_def Let_def persist_def split: option.splits)
  moreover from r have "state_of ?r = st" by (auto simp: state_of_def)
  ultimately show ?thesis using inv by simp
qed

text \<open>
  Claim C5. When \<^verbatim>\<open>send_applications\<close> returns (no exception left it), for every row \<open>i\<close>
  of the applications table: if a message for row \<open>i\<close> was transmitted in this run, the
  stored row has \<open>email_sent = YES\<close>, a truthy text, and \<open>sent_at\<close> equal to the formatted
  clock reading, which is never blank; if no message for row \<open>i\<close> was transmitted (the
  row was not selected, was skipped for a missing PDF, or its transport failed), the
  stored row is the row as it was read, so fields that were blank remain blank. Only rows
  of the table are ever transmitted, and the table keeps its length.
\<close>

theorem dispatch_marks:
  fixes force wb w
  defines "out \<equiv> send_applications force wb w"
  defines "stored \<equiv> applications (o_store out)"
  defines "transmitted \<equiv> fst ` set (st_sent (o_state out))"
  assumes "o_error out = None" and "i < length (applications wb)"
  shows "(i \<in> transmitted
           \<longrightarrow> email_sent (stored ! i) = ''YES'' \<and> truthy (email_sent (stored ! i))
             \<and> sent_at (stored ! i) = strftime (clock w i) \<and> \<not> blank (sent_at (stored ! i)))
       \<and> (i \<notin> transmitted
           \<longrightarrow> stored ! i = applications wb ! i
             \<and> (blank (email_sent (applications wb ! i)) \<and> blank (sent_at (applications wb ! i))
                 \<longrightarrow> blank (email_sent (stored ! i)) \<and> blank (sent_at (stored ! i))))
       \<and> length stored = length (applications wb)
       \<and> transmitted \<subseteq> {k. k < length (applications wb)}"
proof -
  let ?out = "send_applications force wb w"
  let ?stored = "applications (o_store ?out)"
  let ?tr = "fst ` set (st_sent (o_state ?out))"
  from assms(4) have e: "o_error ?out = None" by (simp add: out_def)
  note m = send_applications_marks[OF e]
  have 1: "email_sent (?stored ! i) = ''YES'' \<and> sent_at (?stored ! i) = strftime (clock w i)"
    if "i \<in> ?tr" using m that by blast
  have 2: "?stored ! i = applications wb ! i" if "i \<notin> ?tr"
    using m that assms(5) by blast
  have 3: "?tr \<subseteq> {k. k < length (applications wb)}" using m by blast
  from m have 4: "length ?stored = length (applications wb)" by blast
  show ?thesis unfolding out_def stored_def transmitted_def
    using 1 2 3 4 by (auto simp: truthy_def strftime_not_blank)
qed

theorem dispatch_marks_witness:
  "o_error (send_applications True ex_two_env (ex_world [0])) = None
   \<and> 1 \<in> fst ` set (st_sent (o_state (send_applications True ex_two_env (ex_world [0]))))
   \<and> 0 \<notin> fst ` set (st_sent (o_state (send_applications True ex_two_env (ex_world [0]))))
   \<and> email_sent (applications (o_store (send_applications True ex_two_env (ex_world [0]))) ! 1) = ''YES''
   \<and> \<not> blank (sent_at (applications (o_store (send_applications True ex_two_env (ex_world [0]))) ! 1))
   \<and> applications (o_store (send_applications True ex_two_env (ex_world [0]))) ! 0
       = applications ex_two_env ! 0
   \<and> blank (email_sent (applications (o_store (send_applications True ex_two_env (ex_world [0]))) ! 0))
   \<and> blank (sent_at (applications (o_store (send_applications True ex_two_env (ex_world [0]))) ! 0))"
proof -
  let ?out = "send_applications True ex_two_env (ex_world [0])"
  have h0: "o_error ?out = None" by code_simp
  have l0: "0 < length (applications ex_two_env)" and l1: "1 < length (applications ex_two_env)"
    by (simp_all add: ex_book_def)
  have s1: "1 \<in> fst ` set (st_sent (o_state ?out))" by code_simp
  have s0: "0 \<notin> fst ` set (st_sent (o_state ?out))" by code_simp
  have b: "blank (email_sent (applications ex_two_env ! 0)) \<and> blank (sent_at (applications ex_two_env ! 0))"
    by (simp add: ex_book_def ex_app_def blank_def strip_def)
  from dispatch_marks[OF h0 l1] dispatch_marks[OF h0 l0] h0 s1 s0 b
  show ?thesis by blast
qed

subsection \<open>Persisting the tables\<close>

lemma send_row_Raise_Exhausted:
  assumes "send_row force wb w x st = Raise Exhausted st'"
  shows "pick_sender wb (getenv w) = Inl Exhausted"
  using assms
  by (cases x)
     (auto simp: send_row_def Let_def host_of_def
           split: squeezed.splits sum.splits prod.splits if_splits option.splits)

lemma send_loop_Raise_Exhausted:
  assumes "send_loop force wb w xs st = Raise Exhausted st'"
  shows "pick_sender wb (getenv w) = Inl Exhausted"
  using assms
proof (induction xs arbitrary: st)
  case Nil
  then show ?case by simp
next
  case (Cons x xs)
  then show ?case
    by (cases "send_row force wb w x st") (auto dest: send_row_Raise_Exhausted)
qed

lemma send_row_no_sender:
  assumes "pick_sender wb (getenv w) = Inl e"
  shows "st_sent (state_of (send_row force wb w x s)) = st_sent s
       \<and> st_apps (state_of (send_row force wb w x s)) = st_apps s"
  using assms
  by (cases x) (simp add: send_row_def state_of_def Let_def split: squeezed.splits)

lemma send_loop_no_sender:
  assumes "pick_sender wb (getenv w) = Inl e"
  shows "st_sent (state_of (send_loop force wb w xs st)) = st_sent st
       \<and> st_apps (state_of (send_loop force wb w xs st)) = st_apps st"
  by (rule send_loop_invariant[where P = "\<lambda>s. st_sent s = st_sent st \<and> st_apps s = st_apps st"])
     (simp_all add: send_row_no_sender[OF assms])

lemma pick_sender_multi:
  assumes "senders wb \<noteq> None" and "pick_sender wb env = Inr (s, df)"
  shows "df \<noteq> None"
  using assms by (auto simp: pick_sender_def Let_def split: option.splits list.splits)

lemma send_row_senders_used:
  assumes "senders wb \<noteq> None" and "st_tried s \<noteq> [] \<longrightarrow> st_senders s \<noteq> None"
  shows "st_tried (state_of (send_row force wb w x s)) \<noteq> []
          \<longrightarrow> st_senders (state_of (send_row force wb w x s)) \<noteq> None"
  using assms pick_sender_multi[OF assms(1), of "getenv w"]
  by (cases x)
     (auto simp: send_row_def state_of_def Let_def split: squeezed.splits sum.splits prod.splits)

lemma send_loop_senders_used:
  assumes "senders wb \<noteq> None"
  shows "st_tried (state_of (send_loop force wb w xs (init_state wb))) \<noteq> []
          \<longrightarrow> st_senders (state_of (send_loop force wb w xs (init_state wb))) \<noteq> None"
  by (rule send_loop_invariant[where P = "\<lambda>s. st_tried s \<noteq> [] \<longrightarrow> st_senders s \<noteq> None"])
     (simp_all add: init_state_def send_row_senders_used[OF assms])

text \<open>
  Claim C2, as stated, at a run with one pending row and a \<^verbatim>\<open>senders\<close> sheet whose only
  account has reached its limit: the run ends by the exhaustion error and writes no
  sheet at all.
\<close>

theorem exhaustion_not_persisted_counterexample:
  "todo_of (applications ex_spent) \<noteq> []
   \<and> o_error (send_applications False ex_spent (ex_world [])) = Some Exhausted
   \<and> o_writes (send_applications False ex_spent (ex_world [])) = []"
  by code_simp

text \<open>
  Claim C2, amended. For a run with a non-empty \<^verbatim>\<open>todo\<close>: when the loop ends normally or
  by the fail-fast \<^verbatim>\<open>break\<close>, the function returns, the applications sheet is replaced by
  the table in memory and, when a sender table was returned by the selection, the
  \<^verbatim>\<open>senders\<close> sheet is replaced by it (in multi-account mode this is the case as soon as
  one dispatch was attempted); when an exception leaves the loop, it leaves the function
  too, nothing is written and the workbook is as it was; for the exhaustion error no
  message had been sent and no row marked before it. In every case the profiles and
  offers sheets and every other sheet are unchanged.
\<close>

theorem persist_on_return:
  fixes force wb w
  defines "loop \<equiv> send_loop force wb w (todo_of (applications wb)) (init_state wb)"
  defines "out \<equiv> send_applications force wb w"
  assumes "todo_of (applications wb) \<noteq> []"
  shows "(loop = Next st \<or> loop = Break st
          \<longrightarrow> o_error out = None
            \<and> applications (o_store out) = st_apps st
            \<and> senders (o_store out) = (case st_senders st of None \<Rightarrow> senders wb | Some df \<Rightarrow> Some df)
            \<and> o_writes out = (case st_senders st of None \<Rightarrow> [''applications'']
                               | Some df \<Rightarrow> [''applications'', ''senders''])
            \<and> (senders wb \<noteq> None \<and> st_tried st \<noteq> [] \<longrightarrow> st_senders st \<noteq> None))
       \<and> (loop = Raise e st
          \<longrightarrow> o_error out = Some e \<and> o_writes out = [] \<and> o_store out = wb
            \<and> (e = Exhausted \<longrightarrow> st_sent st = [] \<and> st_apps st = applications wb))
       \<and> profiles (o_store out) = profiles wb
       \<and> joboffers (o_store out) = joboffers wb
       \<and> others (o_store out) = others wb"
proof -
  have used: "senders wb \<noteq> None \<and> st_tried st \<noteq> [] \<longrightarrow> st_senders st \<noteq> None"
    if "loop = Next st \<or> loop = Break st"
  proof -
    from that have "state_of loop = st" by (auto simp: state_of_def)
    with send_loop_senders_used[of wb force w "todo_of (applications wb)"] show ?thesis
      by (auto simp: loop_def)
  qed
  have 1: "o_error out = None \<and> applications (o_store out) = st_apps st
        \<and> senders (o_store out) = (case st_senders st of None \<Rightarrow> senders wb | Some df \<Rightarrow> Some df)
        \<and> o_writes out = (case st_senders st of None \<Rightarrow> [''applications'']
                           | Some df \<Rightarrow> [''applications'', ''senders''])"
    if "loop = Next st \<or> loop = Break st"
    using that assms(3)
    by (auto simp: out_def loop_def send_applications_def Let_def persist_def split: option.splits)
  have ex: "st_sent st = [] \<and> st_apps st = applications wb" if "loop = Raise Exhausted st"
  proof -
    from that have p: "pick_sender wb (getenv w) = Inl Exhausted"
      unfolding loop_def by (rule send_loop_Raise_Exhausted)
    from that have "state_of loop = st" by (simp add: state_of_def)
    with send_loop_no_sender[OF p, of force "todo_of (applications wb)" "init_state wb"]
    show ?thesis by (simp add: init_state_def loop_def)
  qed
  have 2: "o_error out = Some e \<and> o_writes out = [] \<and> o_store out = wb" if "loop = Raise e st"
    using that assms(3) by (simp add: out_def loop_def send_applications_def Let_def)
  have 3: "profiles (o_store out) = profiles wb \<and> joboffers (o_store out) = joboffers wb
       \<and> others (o_store out) = others wb"
    unfolding out_def
    by (cases "send_loop force wb w (todo_of (applications wb)) (init_state wb)")
       (simp_all add: send_applications_def Let_def persist_def split: option.splits)
  from 1 used 2 ex 3 show ?thesis by blast
qed

theorem persist_on_return_witness:
  "todo_of (applications ex_two) \<noteq> []
   \<and> send_loop False ex_two (ex_world [0]) (todo_of (applications ex_two)) (init_state ex_two)
      = Break (state_of (send_loop False ex_two (ex_world [0]) (todo_of (applications ex_two))
                 (init_state ex_two)))
   \<and> o_error (send_applications False ex_two (ex_world [0])) = None
   \<and> o_writes (send_applications False ex_two (ex_world [0])) = [''applications'', ''senders'']
   \<and> senders (o_store (send_applications False ex_two (ex_world [0]))) = Some [ex_account ''a@x.fr'' 1 5]
   \<and> others (o_store (send_applications False ex_two (ex_world [0]))) = others ex_two
   \<and> todo_of (applications ex_spent) \<noteq> []
   \<and> send_loop False ex_spent (ex_world []) (todo_of (applications ex_spent)) (init_state ex_spent)
      = Raise Exhausted (state_of (send_loop False ex_spent (ex_world []) (todo_of (applications ex_spent))
                 (init_state ex_spent)))
   \<and> o_store (send_applications False ex_spent (ex_world [])) = ex_spent
   \<and> o_writes (send_applications False ex_spent (ex_world [])) = []"
proof -
  let ?ra = "send_loop False ex_two (ex_world [0]) (todo_of (applications ex_two)) (init_state ex_two)"
  let ?rb = "send_loop False ex_spent (ex_world []) (todo_of (applications ex_spent)) (init_state ex_spent)"
  have a1: "todo_of (applications ex_two) \<noteq> []" by code_simp
  have a2: "?ra = Break (state_of ?ra)" by code_simp
  have a3: "st_senders (state_of ?ra) = Some [ex_account ''a@x.fr'' 1 5]" by code_simp
  have b1: "todo_of (applications ex_spent) \<noteq> []" by code_simp
  have b2: "?rb = Raise Exhausted (state_of ?rb)" by code_simp
  note ta = persist_on_return[OF a1, where force = False and w = "ex_world [0]" and st = "state_of ?ra"]
  note tb = persist_on_return[OF b1, where force = False and w = "ex_world []" and st = "state_of ?rb"
      and e = Exhausted]
  from ta a2 a3 have ca: "o_error (send_applications False ex_two (ex_world [0])) = None
      \<and> o_writes (send_applications False ex_two (ex_world [0])) = [''applications'', ''senders'']
      \<and> senders (o_store (send_applications False ex_two (ex_world [0]))) = Some [ex_account ''a@x.fr'' 1 5]
      \<and> others (o_store (send_applications False ex_two (ex_world [0]))) = others ex_two"
    by simp
  from tb b2 have cb: "o_store (send_applications False ex_spent (ex_world [])) = ex_spent
      \<and> o_writes (send_applications False ex_spent (ex_world [])) = []"
    by blast
  from a1 a2 ca b1 b2 cb show ?thesis by blast
qed

subsection \<open>Rows whose profile is not in the table\<close>







subsection \<open>Running a builder twice\<close>

lemma cv_name_summary [simp]: "cv_name (p\<lparr>profil_pro := s\<rparr>) = cv_name p"
  by (simp add: cv_name_def)

lemma cv_row_present:
  assumes "cv_dir (g_fs st) (cv_name (clean raw)) \<noteq> None"
  shows "cv_row False c raw st = st\<lparr>g_log := g_log st @ [AlreadyPresent (cv_name (clean raw))]\<rparr>"
  using assms by (auto simp: cv_row_def Let_def)

lemma cv_row_dom:
  "dom (cv_dir (g_fs (cv_row force c raw st))) = insert (cv_name (clean raw)) (dom (cv_dir (g_fs st)))"
  by (auto simp: cv_row_def Let_def)

lemma cv_fold_dom:
  "dom (cv_dir (g_fs (foldl (\<lambda>st raw. cv_row force c raw st) st ps)))
     = dom (cv_dir (g_fs st)) \<union> (\<lambda>raw. cv_name (clean raw)) ` set ps"
  by (induction ps arbitrary: st) (auto simp: cv_row_dom)

lemma cv_fold_present:
  assumes "\<forall>raw\<in>set ps. cv_dir (g_fs st) (cv_name (clean raw)) \<noteq> None"
  shows "g_fs (foldl (\<lambda>st raw. cv_row False c raw st) st ps) = g_fs st
       \<and> g_written (foldl (\<lambda>st raw. cv_row False c raw st) st ps) = g_written st"
  using assms
proof (induction ps arbitrary: st)
  case Nil
  then show ?case by simp
next
  case (Cons raw ps)
  let ?st' = "st\<lparr>g_log := g_log st @ [AlreadyPresent (cv_name (clean raw))]\<rparr>"
  from Cons.prems have r: "cv_row False c raw st = ?st'" by (simp add: cv_row_present)
  from Cons.prems have "\<forall>raw\<in>set ps. cv_dir (g_fs ?st') (cv_name (clean raw)) \<noteq> None" by simp
  from Cons.IH[OF this] r show ?case by simp
qed

lemma generate_cvs_twice:
  "g_fs (generate_cvs False c2 wb (g_fs (generate_cvs force c1 wb fs))) = g_fs (generate_cvs force c1 wb fs)
   \<and> g_written (generate_cvs False c2 wb (g_fs (generate_cvs force c1 wb fs))) = []"
proof -
  let ?st1 = "foldl (\<lambda>st raw. cv_row force c1 raw st) (start fs) (profiles wb)"
  let ?fs1 = "(g_fs ?st1)\<lparr>tmp_cv := None\<rparr>"
  have fs1: "g_fs (generate_cvs force c1 wb fs) = ?fs1"
    by (simp add: generate_cvs_def Let_def)
  have "dom (cv_dir ?fs1) = dom (cv_dir fs) \<union> (\<lambda>raw. cv_name (clean raw)) ` set (profiles wb)"
    using cv_fold_dom[of force c1 "start fs" "profiles wb"] by (simp add: start_def)
  then have pres: "\<forall>raw\<in>set (profiles wb). cv_dir (g_fs (start ?fs1)) (cv_name (clean raw)) \<noteq> None"
    by (auto simp: start_def)
  from cv_fold_present[OF pres, of c2]
  have "g_fs (foldl (\<lambda>st raw. cv_row False c2 raw st) (start ?fs1) (profiles wb)) = ?fs1
      \<and> g_written (foldl (\<lambda>st raw. cv_row False c2 raw st) (start ?fs1) (profiles wb)) = []"
    by (simp add: start_def)
  then show ?thesis unfolding fs1 by (simp add: generate_cvs_def Let_def)
qed

lemma letter_row_present:
  assumes "letter_present wb (g_fs st) row"
  shows "\<exists>p. squeeze (filter (\<lambda>p. profile_id p = a_profile_id row) (profiles wb)) = Row p
         \<and> letter_row False c wb (idx, row) st
           = Next (st\<lparr>g_visited := g_visited st @ [idx],
                      g_log := g_log st @ [AlreadyPresent (lm_name p (a_job_id row))]\<rparr>)"
  using assms
  by (auto simp: letter_present_def letter_row_def Let_def split: squeezed.splits)

lemma letter_row_Next:
  assumes "letter_row force c wb (idx, row) st = Next st'"
  shows "letter_present wb (g_fs st') row
       \<and> (\<forall>n. lm_dir (g_fs st) n \<noteq> None \<longrightarrow> lm_dir (g_fs st') n \<noteq> None)"
  using assms
  by (auto simp: letter_present_def letter_row_def Let_def split: squeezed.splits if_splits)

lemma letter_present_mono:
  assumes "\<forall>n. lm_dir fs n \<noteq> None \<longrightarrow> lm_dir fs' n \<noteq> None" and "letter_present wb fs row"
  shows "letter_present wb fs' row"
  using assms by (auto simp: letter_present_def split: squeezed.splits)

lemma letter_loop_Next:
  assumes "letter_loop force c wb xs st = Next st'"
  shows "(\<forall>x\<in>set xs. letter_present wb (g_fs st') (snd x))
       \<and> (\<forall>n. lm_dir (g_fs st) n \<noteq> None \<longrightarrow> lm_dir (g_fs st') n \<noteq> None)"
  using assms
proof (induction xs arbitrary: st)
  case Nil
  then show ?case by simp
next
  case (Cons x xs)
  obtain idx row where x: "x = (idx, row)" by (cases x)
  from Cons.prems obtain s1 where r: "letter_row force c wb (idx, row) st = Next s1"
    and l: "letter_loop force c wb xs s1 = Next st'"
    unfolding x by (auto split: flow.splits)
  note a = letter_row_Next[OF r] and b = Cons.IH[OF l]
  from a b have mono: "\<forall>n. lm_dir (g_fs st) n \<noteq> None \<longrightarrow> lm_dir (g_fs st') n \<noteq> None" by blast
  from a b have "letter_present wb (g_fs st') row"
    using letter_present_mono[of "g_fs s1" "g_fs st'" wb row] by blast
  with b mono x show ?case by simp
qed

lemma letter_loop_present:
  assumes "\<forall>x\<in>set xs. letter_present wb (g_fs st) (snd x)"
  shows "\<exists>st'. letter_loop False c wb xs st = Next st' \<and> g_fs st' = g_fs st
           \<and> g_written st' = g_written st"
  using assms
proof (induction xs arbitrary: st)
  case Nil
  then show ?case by simp
next
  case (Cons x xs)
  obtain idx row where x: "x = (idx, row)" by (cases x)
  from Cons.prems x have "letter_present wb (g_fs st) row" by simp
  from letter_row_present[OF this, of c idx] obtain p where
    r: "letter_row False c wb (idx, row) st
          = Next (st\<lparr>g_visited := g_visited st @ [idx],
                     g_log := g_log st @ [AlreadyPresent (lm_name p (a_job_id row))]\<rparr>)"
    by blast
  let ?s1 = "st\<lparr>g_visited := g_visited st @ [idx],
                g_log := g_log st @ [AlreadyPresent (lm_name p (a_job_id row))]\<rparr>"
  from Cons.prems have "\<forall>x\<in>set xs. letter_present wb (g_fs ?s1) (snd x)" by simp
  from Cons.IH[OF this] r x show ?case by simp
qed

lemma letter_present_tmp [simp]:
  "letter_present wb (fs\<lparr>tmp_lm := t\<rparr>) row = letter_present wb fs row"
  by (simp add: letter_present_def split: squeezed.splits)

lemma generate_letters_twice:
  assumes "generate_letters force c1 wb fs = Next st1"
  shows "\<exists>st2. generate_letters False c2 wb (g_fs st1) = Next st2 \<and> g_fs st2 = g_fs st1
           \<and> g_written st2 = []"
proof (cases "todo_of (applications wb) = []")
  case True
  with assms show ?thesis by (auto simp: generate_letters_def start_def)
next
  case False
  from assms False obtain st where l: "letter_loop force c1 wb (todo_of (applications wb)) (start fs) = Next st"
    and st1: "st1 = st\<lparr>g_fs := (g_fs st)\<lparr>tmp_lm := None\<rparr>\<rparr>"
    by (auto simp: generate_letters_def Let_def split: flow.splits)
  from letter_loop_Next[OF l]
  have "\<forall>x\<in>set (todo_of (applications wb)). letter_present wb (g_fs (start (g_fs st1))) (snd x)"
    by (simp add: st1 start_def)
  from letter_loop_present[OF this, of c2] obtain s2 where
    l2: "letter_loop False c2 wb (todo_of (applications wb)) (start (g_fs st1)) = Next s2"
    and fs2: "g_fs s2 = g_fs st1" and w2: "g_written s2 = []"
    by (auto simp: start_def)
  have "(g_fs st1)\<lparr>tmp_lm := None\<rparr> = g_fs st1" by (simp add: st1)
  with l2 fs2 w2 False show ?thesis by (simp add: generate_letters_def Let_def)
qed

text \<open>
  Claim C9. Without \<open>force\<close>: a profile whose resume file exists is skipped by
  \<^verbatim>\<open>generate_cvs\<close>, and a pending row whose letter file exists is skipped by
  \<^verbatim>\<open>generate_letters\<close>; in both cases the file system and the list of artifacts written
  are as before. Hence a second run of \<^verbatim>\<open>generate_cvs\<close> on the files the first run left
  writes no artifact and leaves the file system exactly as it found it, and so does a
  second run of \<^verbatim>\<open>generate_letters\<close> after a first one that returned; this holds
  whatever the text and PDF generators answer on the second run.
\<close>

theorem builders_idempotent:
  "(cv_dir (g_fs st) (cv_name (clean raw)) \<noteq> None
      \<longrightarrow> g_fs (cv_row False c raw st) = g_fs st \<and> g_written (cv_row False c raw st) = g_written st)
   \<and> (letter_present wb (g_fs gs) row
      \<longrightarrow> (\<exists>gs'. letter_row False c wb (idx, row) gs = Next gs' \<and> g_fs gs' = g_fs gs
               \<and> g_written gs' = g_written gs))
   \<and> g_fs (generate_cvs False c2 wb (g_fs (generate_cvs False c1 wb fs))) = g_fs (generate_cvs False c1 wb fs)
   \<and> g_written (generate_cvs False c2 wb (g_fs (generate_cvs False c1 wb fs))) = []
   \<and> (generate_letters False c1 wb fs = Next st1
      \<longrightarrow> (\<exists>st2. generate_letters False c2 wb (g_fs st1) = Next st2 \<and> g_fs st2 = g_fs st1
               \<and> g_written st2 = []))"
proof -
  have 1: "g_fs (cv_row False c raw st) = g_fs st \<and> g_written (cv_row False c raw st) = g_written st"
    if "cv_dir (g_fs st) (cv_name (clean raw)) \<noteq> None"
    using cv_row_present[OF that, of c] by simp
  have 2: "\<exists>gs'. letter_row False c wb (idx, row) gs = Next gs' \<and> g_fs gs' = g_fs gs
               \<and> g_written gs' = g_written gs"
    if "letter_present wb (g_fs gs) row"
    using letter_row_present[OF that, of c idx] by auto
  note 3 = generate_cvs_twice[of c2 wb False c1 fs]
  have 4: "\<exists>st2. generate_letters False c2 wb (g_fs st1) = Next st2 \<and> g_fs st2 = g_fs st1
               \<and> g_written st2 = []"
    if "generate_letters False c1 wb fs = Next st1"
    using that by (rule generate_letters_twice)
  from 1 2 3 4 show ?thesis by blast
qed

theorem builders_idempotent_witness:
  "cv_dir (g_fs (start ex_files)) (cv_name (clean ex_profile)) \<noteq> None
   \<and> g_fs (cv_row False ex_collab ex_profile (start ex_files)) = g_fs (start ex_files)
   \<and> g_written (cv_row False ex_collab ex_profile (start ex_files)) = g_written (start ex_files)
   \<and> letter_present ex_one (g_fs (start ex_files)) (ex_app ''p1'' ''j1'')
   \<and> (\<exists>gs'. letter_row False ex_collab ex_one (0, ex_app ''p1'' ''j1'') (start ex_files) = Next gs'
            \<and> g_fs gs' = g_fs (start ex_files) \<and> g_written gs' = g_written (start ex_files))
   \<and> generate_letters False ex_collab ex_one ex_no_letters
       = Next (state_of (generate_letters False ex_collab ex_one ex_no_letters))
   \<and> g_written (state_of (generate_letters False ex_collab ex_one ex_no_letters))
       = [''LM_DURAND_Alice_j1.pdf'']
   \<and> (\<exists>st2. generate_letters False ex_collab ex_one
               (g_fs (state_of (generate_letters False ex_collab ex_one ex_no_letters))) = Next st2
            \<and> g_fs st2 = g_fs (state_of (generate_letters False ex_collab ex_one ex_no_letters))
            \<and> g_written st2 = [])"
proof -
  let ?g = "generate_letters False ex_collab ex_one ex_no_letters"
  note defs = letter_present_def letter_row_def squeeze_def ex_book_def ex_app_def ex_profile_def
    start_def ex_files_def lm_name_def upper_def upper_char_def ex_collab_def state_of_def Let_def
  have nm: "cv_name (clean ex_profile) = ''CV_DURAND_Alice.pdf''" by code_simp
  have h1: "cv_dir (g_fs (start ex_files)) (cv_name (clean ex_profile)) \<noteq> None"
    unfolding nm by (simp add: start_def ex_files_def)
  have h2: "letter_present ex_one (g_fs (start ex_files)) (ex_app ''p1'' ''j1'')"
    by (simp add: defs)
  have td: "todo_of (applications ex_one) = [(0, ex_app ''p1'' ''j1'')]" by code_simp
  have h3: "?g = Next (state_of ?g)" and w1: "g_written (state_of ?g) = [''LM_DURAND_Alice_j1.pdf'']"
    unfolding generate_letters_def td by (simp_all add: defs)
  note t = builders_idempotent[where st = "start ex_files" and raw = ex_profile and c = ex_collab
      and wb = ex_one and gs = "start ex_files" and row = "ex_app ''p1'' ''j1''" and idx = 0
      and ?c1.0 = ex_collab and ?c2.0 = ex_collab and fs = ex_no_letters and ?st1.0 = "state_of ?g"]
  from t h1 h2 h3 w1 show ?thesis by blast
qed

subsection \<open>Rotation of the sender accounts\<close>

lemma sort_key_head_first:
  assumes "sort_key f xs = y # ys"
  shows "\<exists>as bs. xs = as @ y # bs \<and> (\<forall>a\<in>set as. f y < f a)"
proof -
  have "filter (\<lambda>x. f x = f y) (sort_key f xs) = filter (\<lambda>x. f x = f y) xs"
    by (rule sort_key_stable)
  with assms have "filter (\<lambda>x. f x = f y) xs = y # filter (\<lambda>x. f x = f y) ys" by simp
  then obtain as bs where xs: "xs = as @ y # bs" and as: "\<forall>a\<in>set as. f a \<noteq> f y"
    by (auto simp: filter_eq_Cons_iff)
  from sort_key_head[OF assms] xs have "\<forall>a\<in>set as. f y \<le> f a" by auto
  with as have "\<forall>a\<in>set as. f y < f a" by (metis order_le_less)
  with xs show ?thesis by blast
qed

lemma sorted_fst_avail: "sorted (map fst (avail df))"
proof -
  have "sorted (map fst (enumerate 0 df))" by (simp add: map_fst_enumerate)
  then show ?thesis unfolding avail_def by (rule sorted_filter)
qed

text \<open>
  The selection on one table: when some account qualifies, the account returned is a
  qualifying one with the least counter, and the earliest such in sheet order.
\<close>

lemma pick_sender_least:
  assumes "senders wb = Some raw" and "\<exists>r\<in>set raw. sent r < limit r"
  shows "\<exists>k. k < length raw
           \<and> pick_sender wb env = Inr (Account (coerce (raw ! k)),
                                       Some ((map coerce raw)[k := bump (coerce (raw ! k))]))
           \<and> sent (raw ! k) < limit (raw ! k)
           \<and> (\<forall>j<length raw. sent (raw ! j) < limit (raw ! j) \<longrightarrow> sent (raw ! k) \<le> sent (raw ! j))
           \<and> (\<forall>j<k. sent (raw ! j) < limit (raw ! j) \<longrightarrow> sent (raw ! k) < sent (raw ! j))"
proof -
  let ?df = "map coerce raw"
  let ?f = "\<lambda>(i, r). sent r"
  from assms(2) have "sort_key ?f (avail ?df) \<noteq> []" by (simp add: sort_key_Nil_iff avail_empty_iff)
  then obtain k chosen ys where srt: "sort_key ?f (avail ?df) = (k, chosen) # ys"
    by (cases "sort_key ?f (avail ?df)") auto
  from sort_key_head[OF srt] have mem: "(k, chosen) \<in> set (avail ?df)"
    and least: "\<forall>x\<in>set (avail ?df). ?f (k, chosen) \<le> ?f x" by auto
  from mem have k: "k < length raw" and ch: "chosen = coerce (raw ! k)"
    and q: "sent (raw ! k) < limit (raw ! k)" by (auto simp: avail_mem)
  have pick: "pick_sender wb env = Inr (Account (coerce (raw ! k)), Some (?df[k := bump (coerce (raw ! k))]))"
    using assms(1) srt ch k by (simp add: pick_sender_def Let_def)
  have min: "sent (raw ! k) \<le> sent (raw ! j)" if "j < length raw" "sent (raw ! j) < limit (raw ! j)" for j
  proof -
    from that have "(j, coerce (raw ! j)) \<in> set (avail ?df)" by (simp add: avail_mem)
    with least ch show ?thesis by fastforce
  qed
  from sort_key_head_first[OF srt] obtain as bs where
    split: "avail ?df = as @ (k, chosen) # bs" and before: "\<forall>a\<in>set as. ?f (k, chosen) < ?f a"
    by blast
  have first: "sent (raw ! k) < sent (raw ! j)" if "j < k" "sent (raw ! j) < limit (raw ! j)" for j
  proof -
    from that k have in_av: "(j, coerce (raw ! j)) \<in> set (avail ?df)" by (simp add: avail_mem)
    from sorted_fst_avail[of ?df] split have "\<forall>b\<in>set bs. k \<le> fst b"
      by (auto simp: sorted_append)
    with that(1) have "(j, coerce (raw ! j)) \<notin> set bs" by fastforce
    with in_av split that(1) have "(j, coerce (raw ! j)) \<in> set as" by auto
    with before ch show ?thesis by fastforce
  qed
  from k pick q min first show ?thesis by blast
qed

text \<open>
  Claim C1, at its own example: counters \<open>[0, 3]\<close>, limits \<open>[5, 5]\<close>, three pending
  applications whose PDFs exist, a mail server that accepts everything. Fed with the
  table it returned, the selection does choose the first account at counts 0, 1 and 2.
  But \<^verbatim>\<open>pick_sender\<close> reads the \<^verbatim>\<open>senders\<close> sheet from the workbook at every call and
  \<^verbatim>\<open>send_applications\<close> writes the workbook only after its loop: the three selections of
  one run all see the stored counter 0, the three messages leave from the first account
  at count 0, and the sheet written at the end holds the counter 1, not 3.
\<close>

theorem rotation_lost_within_run:
  "pick_sender ex_three Map.empty
     = Inr (Account (ex_account ''a@x.fr'' 0 5), Some [ex_account ''a@x.fr'' 1 5, ex_account ''b@x.fr'' 3 5])
   \<and> pick_sender (ex_book [] (Some [ex_account ''a@x.fr'' 1 5, ex_account ''b@x.fr'' 3 5])) Map.empty
     = Inr (Account (ex_account ''a@x.fr'' 1 5), Some [ex_account ''a@x.fr'' 2 5, ex_account ''b@x.fr'' 3 5])
   \<and> pick_sender (ex_book [] (Some [ex_account ''a@x.fr'' 2 5, ex_account ''b@x.fr'' 3 5])) Map.empty
     = Inr (Account (ex_account ''a@x.fr'' 2 5), Some [ex_account ''a@x.fr'' 3 5, ex_account ''b@x.fr'' 3 5])
   \<and> map (\<lambda>x. m_sender (snd x)) (st_sent (o_state (send_applications False ex_three (ex_world []))))
     = [Account (ex_account ''a@x.fr'' 0 5), Account (ex_account ''a@x.fr'' 0 5),
        Account (ex_account ''a@x.fr'' 0 5)]
   \<and> senders (o_store (send_applications False ex_three (ex_world [])))
     = Some [ex_account ''a@x.fr'' 1 5, ex_account ''b@x.fr'' 3 5]"
proof -
  note defs = pick_sender_def ex_book_def ex_account_def avail_def coerce_def to_int_def
    sent_def limit_def bump_def enumerate_eq_zip
  have 1: "pick_sender ex_three Map.empty
     = Inr (Account (ex_account ''a@x.fr'' 0 5), Some [ex_account ''a@x.fr'' 1 5, ex_account ''b@x.fr'' 3 5])"
    by (simp add: defs)
  have 2: "pick_sender (ex_book [] (Some [ex_account ''a@x.fr'' 1 5, ex_account ''b@x.fr'' 3 5])) Map.empty
     = Inr (Account (ex_account ''a@x.fr'' 1 5), Some [ex_account ''a@x.fr'' 2 5, ex_account ''b@x.fr'' 3 5])"
    by (simp add: defs)
  have 3: "pick_sender (ex_book [] (Some [ex_account ''a@x.fr'' 2 5, ex_account ''b@x.fr'' 3 5])) Map.empty
     = Inr (Account (ex_account ''a@x.fr'' 2 5), Some [ex_account ''a@x.fr'' 3 5, ex_account ''b@x.fr'' 3 5])"
    by (simp add: defs)
  have 4: "map (\<lambda>x. m_sender (snd x)) (st_sent (o_state (send_applications False ex_three (ex_world []))))
     = [Account (ex_account ''a@x.fr'' 0 5), Account (ex_account ''a@x.fr'' 0 5),
        Account (ex_account ''a@x.fr'' 0 5)]"
    by code_simp
  have 5: "senders (o_store (send_applications False ex_three (ex_world [])))
     = Some [ex_account ''a@x.fr'' 1 5, ex_account ''b@x.fr'' 3 5]"
    by code_simp
  from 1 2 3 4 5 show ?thesis by blast
qed

end
